theory Spec2Isabelle
  imports Complex_Main "HOL-Library.Word"
begin

section \<open>Strings and text measurement\<close>

text \<open>
  A JavaScript string is a sequence of UTF-16 code units; \<open>length\<close>, \<open>slice\<close> and
  indexing count code units. The letter \<open>a\<close> is \<open>0x61\<close>, the space is \<open>0x20\<close>, the full
  stop is \<open>0x2E\<close>.
\<close>

type_synonym jsstring = "16 word list"

text \<open>The code units of an ASCII literal, to write strings readably.\<close>

definition js :: "string \<Rightarrow> jsstring" where
  "js s = map (\<lambda>c. of_char c) s"

text \<open>The code units matched by \<open>\s\<close> in a JavaScript regular expression.\<close>

definition is_space :: "16 word \<Rightarrow> bool" where
  "is_space c \<longleftrightarrow>
     c = 0x09 \<or> c = 0x0A \<or> c = 0x0B \<or> c = 0x0C \<or> c = 0x0D \<or> c = 0x20 \<or> c = 0xA0 \<or>
     c = 0x1680 \<or> (0x2000 \<le> c \<and> c \<le> 0x200A) \<or> c = 0x2028 \<or> c = 0x2029 \<or>
     c = 0x202F \<or> c = 0x205F \<or> c = 0x3000 \<or> c = 0xFEFF"

text \<open>
  \<open>s.slice(0, n)\<close> and \<open>s.slice(n)\<close>: a negative index counts from the end, and every
  index is clamped to the string.
\<close>

definition slice_to :: "jsstring \<Rightarrow> int \<Rightarrow> jsstring" where
  "slice_to s n = (if 0 \<le> n then take (nat n) s else take (length s - nat (- n)) s)"

definition slice_from :: "jsstring \<Rightarrow> int \<Rightarrow> jsstring" where
  "slice_from s n = (if 0 \<le> n then drop (nat n) s else drop (length s - nat (- n)) s)"

text \<open>
  \<open>text.split(/\s+/)\<close>: the pieces between maximal runs of whitespace, empty pieces at
  the ends included; \<open>cur\<close> is the piece being read.
\<close>

function split_ws :: "jsstring \<Rightarrow> jsstring \<Rightarrow> jsstring list" where
  "split_ws cur [] = [cur]"
| "split_ws cur (c # cs) =
     (if is_space c then cur # split_ws [] (dropWhile is_space cs)
      else split_ws (cur @ [c]) cs)"
  by pat_completeness auto
termination
  by (relation "measure (\<lambda>(cur, cs). length cs)")
     (auto simp: less_Suc_eq_le length_dropWhile_le)

text \<open>\<open>text.split(/\s+/).filter(Boolean)\<close>: the empty string is the only falsy one.\<close>

definition words_of :: "jsstring \<Rightarrow> jsstring list" where
  "words_of text = filter (\<lambda>w. w \<noteq> []) (split_ws [] text)"

text \<open>
  \<open>ctx.measureText(s).width\<close> depends on the font set on the canvas context and on the
  browser's text shaping. It is a parameter \<open>mw\<close> of the model: \<open>mw font s\<close> is the
  measured width of \<open>s\<close> under \<open>font\<close>. Widths are only ever compared, so the finite
  doubles are read as reals.
\<close>

type_synonym measure = "jsstring \<Rightarrow> jsstring \<Rightarrow> real"

definition maxChunkLength :: int where
  "maxChunkLength = 1"

text \<open>
  The inner \<open>while (low <= high)\<close> of \<open>splitWordToFit\<close>, on the loop state
  \<open>(low, high, best)\<close>; it returns \<open>best\<close>. \<open>None\<close> stands for a loop that does not return.
\<close>

partial_function (option) bsearch_loop ::
  "(jsstring \<Rightarrow> real) \<Rightarrow> real \<Rightarrow> jsstring \<Rightarrow> int \<Rightarrow> int \<Rightarrow> int \<Rightarrow> int option" where
  "bsearch_loop w maxWidth remaining low high best =
     (if low \<le> high then
        (let mid = (low + high) div 2;
             candidate = slice_to remaining mid
         in if w candidate \<le> maxWidth
            then bsearch_loop w maxWidth remaining (mid + 1) high mid
            else bsearch_loop w maxWidth remaining low (mid - 1) best)
      else Some best)"

text \<open>
  The outer \<open>while (remaining.length > 0)\<close> of \<open>splitWordToFit\<close>, on the loop state
  \<open>(pieces, remaining)\<close>; it returns \<open>pieces\<close>.
\<close>

partial_function (option) split_loop ::
  "(jsstring \<Rightarrow> real) \<Rightarrow> real \<Rightarrow> jsstring list \<Rightarrow> jsstring \<Rightarrow> jsstring list option" where
  "split_loop w maxWidth pieces remaining =
     (if length remaining > 0 then
        Option.bind
          (bsearch_loop w maxWidth remaining maxChunkLength (int (length remaining)) maxChunkLength)
          (\<lambda>best. split_loop w maxWidth (pieces @ [slice_to remaining best])
                     (slice_from remaining best))
      else Some pieces)"

definition splitWordToFit :: "(jsstring \<Rightarrow> real) \<Rightarrow> real \<Rightarrow> jsstring \<Rightarrow> jsstring list option" where
  "splitWordToFit w maxWidth word =
     (if word = [] then Some []
      else if w word \<le> maxWidth then Some [word]
      else split_loop w maxWidth [] word)"

text \<open>
  The state of the two \<open>for\<close> loops of \<open>textLines\<close>: the finished lines and the line
  being filled. The line cap \<open>maxLines\<close> is a natural number; the callers pass 3 and 6.
\<close>

record wrap_state =
  lines :: "jsstring list"
  current :: jsstring

text \<open>
  The inner \<open>for (const segment of segments)\<close>. \<open>isFirstSegment\<close> is its own loop
  variable. \<open>lines.length >= maxLines - 1\<close> is read over the integers.
\<close>

fun segment_loop ::
  "(jsstring \<Rightarrow> real) \<Rightarrow> real \<Rightarrow> nat \<Rightarrow> bool \<Rightarrow> jsstring list \<Rightarrow> wrap_state \<Rightarrow> wrap_state" where
  "segment_loop w maxWidth maxLines isFirstSegment [] st = st"
| "segment_loop w maxWidth maxLines isFirstSegment (segment # segments) st =
     (let prefix = (if isFirstSegment \<and> current st \<noteq> [] then js '' '' else []);
          candidate = (if current st \<noteq> [] then current st @ prefix @ segment else segment)
      in if w candidate \<le> maxWidth
         then segment_loop w maxWidth maxLines False segments (st\<lparr>current := candidate\<rparr>)
         else
           (let lines' = (if current st \<noteq> [] then lines st @ [current st] else lines st);
                st' = st\<lparr>lines := lines', current := segment\<rparr>
            in if int (length lines') \<ge> int maxLines - 1
               then st'
               else segment_loop w maxWidth maxLines False segments st'))"

text \<open>
  The outer \<open>for (const word of words)\<close>. Its own \<open>break\<close> test runs after every word,
  whether or not the inner loop was left by \<open>break\<close>.
\<close>

fun word_loop ::
  "(jsstring \<Rightarrow> real) \<Rightarrow> real \<Rightarrow> nat \<Rightarrow> jsstring list \<Rightarrow> wrap_state \<Rightarrow> wrap_state option" where
  "word_loop w maxWidth maxLines [] st = Some st"
| "word_loop w maxWidth maxLines (word # words) st =
     Option.bind (splitWordToFit w maxWidth word)
       (\<lambda>segments.
          let st' = segment_loop w maxWidth maxLines True segments st
          in if int (length (lines st')) \<ge> int maxLines - 1
             then Some st'
             else word_loop w maxWidth maxLines words st')"

text \<open>
  The \<open>while (trimmed.length > 3 && measureText(trimmed + "...").width > maxWidth)\<close> of
  the ellipsis step; \<open>trimmed.slice(0, -1)\<close> drops the last code unit.
\<close>

definition ellipsis :: jsstring where
  "ellipsis = js ''...''"

partial_function (option) trim_loop ::
  "(jsstring \<Rightarrow> real) \<Rightarrow> real \<Rightarrow> jsstring \<Rightarrow> jsstring option" where
  "trim_loop w maxWidth trimmed =
     (if length trimmed > 3 \<and> w (trimmed @ ellipsis) > maxWidth
      then trim_loop w maxWidth (slice_to trimmed (- 1))
      else Some trimmed)"

text \<open>
  The ellipsis step on the lines kept. \<open>lines[maxLines - 1] ?? ""\<close> reads the empty string
  when the index is outside the array, which happens for \<open>maxLines = 0\<close> only; the
  assignment to index \<open>-1\<close> then leaves the elements of the array as they are.
\<close>

definition ellipsize ::
  "(jsstring \<Rightarrow> real) \<Rightarrow> real \<Rightarrow> nat \<Rightarrow> jsstring list \<Rightarrow> jsstring list \<Rightarrow> jsstring list option" where
  "ellipsize w maxWidth maxLines words ls =
     (if length words > 0 \<and> length ls = maxLines then
        (let last = (if 1 \<le> maxLines \<and> maxLines - 1 < length ls then ls ! (maxLines - 1) else [])
         in if w last > maxWidth
            then Option.bind (trim_loop w maxWidth last)
                   (\<lambda>trimmed. Some (if 1 \<le> maxLines then ls[maxLines - 1 := trimmed @ ellipsis]
                                      else ls))
            else Some ls)
      else Some ls)"

text \<open>
  \<open>textLines(text, maxWidth, font, maxLines)\<close>: it sets \<open>ctx.font = font\<close>, so every
  measurement is \<open>mw font\<close>.
\<close>

definition textLines ::
  "measure \<Rightarrow> jsstring \<Rightarrow> real \<Rightarrow> jsstring \<Rightarrow> nat \<Rightarrow> jsstring list option" where
  "textLines mw text maxWidth font maxLines =
     (let w = mw font;
          words = words_of text
      in Option.bind (word_loop w maxWidth maxLines words \<lparr>lines = [], current = []\<rparr>)
           (\<lambda>st.
              let ls1 = (if current st \<noteq> [] then lines st @ [current st] else lines st);
                  ls2 = (if length ls1 > maxLines then take maxLines ls1 else ls1)
              in ellipsize w maxWidth maxLines words ls2))"

text \<open>A fixed-pitch font for concrete runs: every code unit is 10 pixels wide.\<close>

definition fixed_pitch :: measure where
  "fixed_pitch font s = 10 * real (length s)"

declare bsearch_loop.simps [code] split_loop.simps [code] trim_loop.simps [code]

section \<open>Data model\<close>

text \<open>
  The types shared by the broadcast page and the history page. A JSON number is read as
  a real; an optional field is an \<open>option\<close>.
\<close>

record Model =
  model_id :: jsstring  \<comment> \<open>the field \<open>id\<close>\<close>
  name :: jsstring

record TaskInfo =
  model :: Model
  startedAt :: real
  finishedAt :: "real option"
  result :: "jsstring option"
  task_error :: "jsstring option"

record VoteInfo =
  voter :: Model
  vote_startedAt :: real
  vote_finishedAt :: "real option"
  votedFor :: "Model option"
  vote_error :: "bool option"

datatype Phase = Prompting | Answering | Voting | Done

record RoundState =
  num :: real
  phase :: Phase
  prompter :: Model
  promptTask :: TaskInfo
  prompt :: "jsstring option"
  contestants :: "Model \<times> Model"
  answerTasks :: "TaskInfo \<times> TaskInfo"
  votes :: "VoteInfo list"
  scoreA :: "real option"
  scoreB :: "real option"
  viewerVotesA :: "real option"
  viewerVotesB :: "real option"
  viewerVotingEndsAt :: "real option"

type_synonym scores = "(jsstring \<times> real) list"

record GameState =
  lastCompleted :: "RoundState option"
  active :: "RoundState option"
  scores :: scores
  viewerScores :: "scores option"
  is_done :: bool  \<comment> \<open>the field \<open>done\<close>\<close>
  isPaused :: bool
  generation :: real

text \<open>Truthiness of an optional string: absent and empty are both falsy.\<close>

definition truthy :: "jsstring option \<Rightarrow> bool" where
  "truthy v = (case v of None \<Rightarrow> False | Some s \<Rightarrow> s \<noteq> [])"

section \<open>Vote tally and winner badge\<close>

text \<open>\<open>vote.votedFor?.name === n\<close>: false when \<open>votedFor\<close> is absent.\<close>

definition votedFor_is :: "VoteInfo \<Rightarrow> jsstring \<Rightarrow> bool" where
  "votedFor_is vote n = (case votedFor vote of None \<Rightarrow> False | Some m \<Rightarrow> name m = n)"

text \<open>
  The \<open>for (const vote of round.votes)\<close> of \<open>drawContestantCard\<close> on the broadcast
  canvas: three independent \<open>if\<close> statements per vote.
\<close>

record tally =
  votesA :: nat
  votesB :: nat
  taskVoters :: "VoteInfo list"

fun tally_loop :: "Model \<Rightarrow> Model \<Rightarrow> TaskInfo \<Rightarrow> VoteInfo list \<Rightarrow> tally \<Rightarrow> tally" where
  "tally_loop a b task [] t = t"
| "tally_loop a b task (vote # rest) t =
     (let t1 = (if votedFor_is vote (name a) then t\<lparr>votesA := votesA t + 1\<rparr> else t);
          t2 = (if votedFor_is vote (name b) then t1\<lparr>votesB := votesB t1 + 1\<rparr> else t1);
          t3 = (if votedFor_is vote (name (model task))
                then t2\<lparr>taskVoters := taskVoters t2 @ [vote]\<rparr> else t2)
      in tally_loop a b task rest t3)"

text \<open>
  What \<open>drawContestantCard(task, x, y, w, h, round)\<close> derives before it draws: the tally,
  \<open>isFirst\<close>, \<open>voteCount\<close> and \<open>isWinner\<close>. The \<open>WIN\<close> badge is drawn exactly when
  \<open>isWinner\<close> holds.
\<close>

record contestant_card =
  card_tally :: tally
  isFirst :: bool
  voteCount :: nat
  isWinner :: bool

definition drawContestantCard :: "TaskInfo \<Rightarrow> RoundState \<Rightarrow> contestant_card" where
  "drawContestantCard task rnd =
     (let (a, b) = contestants rnd;
          t = tally_loop a b task (votes rnd) \<lparr>votesA = 0, votesB = 0, taskVoters = []\<rparr>;
          isFirst = (name (model (fst (answerTasks rnd))) = name (model task));
          voteCount = (if isFirst then votesA t else votesB t);
          isWinner = (phase rnd = Done \<and> voteCount > (if isFirst then votesB t else votesA t))
      in \<lparr>card_tally = t, isFirst = isFirst, voteCount = voteCount, isWinner = isWinner\<rparr>)"


text \<open>
  \<open>HistoryCard\<close> on the history page: one \<open>if\<close> / \<open>else if\<close> per vote, and a \<open>WINNER\<close>
  badge per contestant decided by \<open>isAWinner\<close> and \<open>isBWinner\<close>.
\<close>

record history_tally =
  h_votesA :: nat
  h_votesB :: nat
  votersA :: "Model list"
  votersB :: "Model list"

fun history_loop :: "Model \<Rightarrow> Model \<Rightarrow> VoteInfo list \<Rightarrow> history_tally \<Rightarrow> history_tally" where
  "history_loop contA contB [] t = t"
| "history_loop contA contB (v # rest) t =
     history_loop contA contB rest
       (if votedFor_is v (name contA)
        then t\<lparr>h_votesA := h_votesA t + 1, votersA := votersA t @ [voter v]\<rparr>
        else if votedFor_is v (name contB)
        then t\<lparr>h_votesB := h_votesB t + 1, votersB := votersB t @ [voter v]\<rparr>
        else t)"

record history_card =
  hist_tally :: history_tally
  isAWinner :: bool
  isBWinner :: bool

definition HistoryCard :: "RoundState \<Rightarrow> history_card" where
  "HistoryCard rnd =
     (let (contA, contB) = contestants rnd;
          t = history_loop contA contB (votes rnd)
                \<lparr>h_votesA = 0, h_votesB = 0, votersA = [], votersB = []\<rparr>
      in \<lparr>hist_tally = t, isAWinner = (h_votesA t > h_votesB t),
          isBWinner = (h_votesB t > h_votesA t)\<rparr>)"

section \<open>Round selection in the renderer\<close>

text \<open>
  \<open>draw()\<close> as the sequence of drawing routines it calls on the snapshot \<open>state\<close>.
\<close>

datatype draw_call =
  DrawHeader
  | DrawWaiting
  | DrawScoreboard scores scores
  | DrawDone scores
  | DrawRound RoundState

definition draw :: "GameState option \<Rightarrow> draw_call list" where
  "draw state =
     (case state of
        None \<Rightarrow> [DrawHeader, DrawWaiting]
      | Some s \<Rightarrow>
          (let isNextPrompting =
                 (case active s of None \<Rightarrow> False
                  | Some a \<Rightarrow> phase a = Prompting \<and> \<not> truthy (prompt a));
               displayRound =
                 (if isNextPrompting \<and> lastCompleted s \<noteq> None then lastCompleted s
                  else (case active s of Some a \<Rightarrow> Some a | None \<Rightarrow> lastCompleted s))
           in [DrawHeader,
               DrawScoreboard (scores s) (case viewerScores s of Some v \<Rightarrow> v | None \<Rightarrow> [])] @
              (if is_done s then [DrawDone (scores s)]
               else (case displayRound of Some r \<Rightarrow> [DrawRound r] | None \<Rightarrow> [DrawWaiting]))))"

section \<open>State synchronisation client\<close>

text \<open>
  The module variables of the broadcast page, together with the parts of the browser
  window its handlers act on: the pending timeouts (identifier and delay in
  milliseconds; every timeout of this page calls \<open>setupWebSocket\<close>), the next timeout
  identifier, the number of WebSockets created, the number of calls of
  \<open>location.reload()\<close>, and the text of the status element.
\<close>

record page =
  state :: "GameState option"
  totalRounds :: "real option"
  viewerCount :: real
  connected :: bool
  ws :: "nat option"
  reconnectTimer :: "nat option"
  lastMessageAt :: real
  knownVersion :: "jsstring option"
  timers :: "(nat \<times> nat) list"
  nextTimer :: nat
  sockets :: nat
  reloads :: nat
  status :: jsstring

text \<open>
  A parsed server message; a state message carries \<open>data\<close>, \<open>totalRounds\<close>,
  \<open>viewerCount\<close> and the optional \<open>version\<close>. \<open>totalRounds\<close> is \<open>None\<close> when the value is not
  a finite number. \<open>Malformed\<close> stands for every payload that fails to parse or has another
  \<open>type\<close>: the handler catches the exception or falls through both branches.
\<close>

datatype ServerMessage =
  StateMessage GameState "real option" real "jsstring option"
  | ViewerCountMessage real
  | Malformed

text \<open>\<open>window.setTimeout\<close> and \<open>window.clearTimeout\<close>.\<close>

definition setTimeout :: "nat \<Rightarrow> page \<Rightarrow> nat \<times> page" where
  "setTimeout delay p =
     (nextTimer p, p\<lparr>timers := timers p @ [(nextTimer p, delay)], nextTimer := nextTimer p + 1\<rparr>)"

definition clearTimeout :: "nat \<Rightarrow> page \<Rightarrow> page" where
  "clearTimeout t p = p\<lparr>timers := filter (\<lambda>(i, d). i \<noteq> t) (timers p)\<rparr>"

definition setStatus :: "jsstring \<Rightarrow> page \<Rightarrow> page" where
  "setStatus v p = p\<lparr>status := v\<rparr>"

definition setupWebSocket :: "page \<Rightarrow> page" where
  "setupWebSocket p = p\<lparr>ws := Some (sockets p), sockets := sockets p + 1\<rparr>"

definition onopen :: "page \<Rightarrow> page" where
  "onopen p = setStatus (js ''WS connected'') (p\<lparr>connected := True\<rparr>)"

definition onclose :: "page \<Rightarrow> page" where
  "onclose p =
     (let p1 = setStatus (js ''WS reconnecting...'') (p\<lparr>connected := False\<rparr>);
          p2 = (case reconnectTimer p1 of Some t \<Rightarrow> clearTimeout t p1 | None \<Rightarrow> p1);
          (t, p3) = setTimeout 1000 p2
      in p3\<lparr>reconnectTimer := Some t\<rparr>)"

text \<open>
  \<open>ws.onmessage\<close>; \<open>now\<close> is the reading of \<open>Date.now()\<close>. \<open>apply_state\<close> is the tail of the
  \<open>state\<close> branch, from \<open>state = msg.data\<close> on.
\<close>

definition apply_state :: "GameState \<Rightarrow> real option \<Rightarrow> real \<Rightarrow> real \<Rightarrow> page \<Rightarrow> page" where
  "apply_state msg_data msg_totalRounds msg_viewerCount now p =
     p\<lparr>state := Some msg_data,
       totalRounds := (case msg_totalRounds of
                         Some n \<Rightarrow> if n \<ge> 0 then Some n else None
                       | None \<Rightarrow> None),
       viewerCount := msg_viewerCount,
       lastMessageAt := now\<rparr>"

definition onmessage :: "ServerMessage \<Rightarrow> real \<Rightarrow> page \<Rightarrow> page" where
  "onmessage msg now p =
     (case msg of
        StateMessage d tr vc ver \<Rightarrow>
          (if truthy ver then
             (if \<not> truthy (knownVersion p)
              then apply_state d tr vc now (p\<lparr>knownVersion := ver\<rparr>)
              else if knownVersion p \<noteq> ver then p\<lparr>reloads := reloads p + 1\<rparr>
              else apply_state d tr vc now p)
           else apply_state d tr vc now p)
      | ViewerCountMessage vc \<Rightarrow> p\<lparr>viewerCount := vc\<rparr>
      | Malformed \<Rightarrow> p)"

text \<open>
  The page as the script leaves it: the initial values of the module variables, then the
  call \<open>setupWebSocket()\<close> at the end of the script.
\<close>

definition initial_page :: page where
  "initial_page =
     setupWebSocket
       \<lparr>state = None, totalRounds = None, viewerCount = 0, connected = False, ws = None,
        reconnectTimer = None, lastMessageAt = 0, knownVersion = None,
        timers = [], nextTimer = 1, sockets = 0, reloads = 0, status = []\<rparr>"

text \<open>
  The events the browser delivers to the page. A timeout fires only while it is
  pending; it is then removed and its callback \<open>setupWebSocket\<close> runs.
\<close>

datatype event = Open | Close | Message ServerMessage real | Timeout nat

fun handle :: "event \<Rightarrow> page \<Rightarrow> page" where
  "handle Open p = onopen p"
| "handle Close p = onclose p"
| "handle (Message msg now) p = onmessage msg now p"
| "handle (Timeout t) p =
     (if t \<in> fst ` set (timers p) then setupWebSocket (clearTimeout t p) else p)"

fun run :: "event list \<Rightarrow> page \<Rightarrow> page" where
  "run [] p = p"
| "run (e # es) p = run es (handle e p)"

section \<open>Capture sink\<close>

datatype ReadyState = CONNECTING | OPEN | CLOSING | CLOSED

record sink_socket =
  readyState :: ReadyState
  bufferedAmount :: nat

datatype dom_exception = InvalidStateError

text \<open>
  \<open>socket.send(chunk)\<close>: the call throws on a socket that is still connecting; on a
  closing or closed socket it returns normally. The result lists the calls made.
\<close>

definition socket_send :: "sink_socket \<Rightarrow> 8 word list \<Rightarrow> dom_exception + 8 word list list" where
  "socket_send s chunk = (if readyState s = CONNECTING then Inl InvalidStateError else Inr [chunk])"

text \<open>
  \<open>recorder.ondataavailable\<close> on the bytes of \<open>event.data\<close>. The three tests read the
  socket as it is when the event arrives; \<open>send\<close> runs after the \<open>await\<close>, on the socket
  as it is then (\<open>after\<close>).
\<close>

definition ondataavailable ::
  "8 word list \<Rightarrow> sink_socket \<Rightarrow> sink_socket \<Rightarrow> dom_exception + 8 word list list" where
  "ondataavailable event_data socket after =
     (if length event_data = 0 then Inr []
      else if readyState socket \<noteq> OPEN then Inr []
      else if bufferedAmount socket > 16000000 then Inr []
      else socket_send after event_data)"

section \<open>Stream orchestrator\<close>

datatype Mode = Live | Dryrun

text \<open>
  What the orchestrator's \<open>main\<close> meets on its way: whether the broadcast page answers,
  whether the pipes of \<open>ffplay\<close> are there, whether the headless browser starts, whether
  it loads the page and finds the canvas, how the first-chunk promise settles, and the
  exit code of \<open>ffmpeg\<close>.
\<close>

datatype first_chunk = ChunkWritten | ChunkWriteFailed | NoChunk

record world =
  mode :: Mode
  broadcast_reachable :: bool
  ffplay_pipes :: bool
  browser_starts :: bool
  page_loads :: bool
  first :: first_chunk
  ffmpeg_exit :: int

datatype failure =
  CannotReachBroadcast | FfplayPipeFailed | BrowserFailed | PageFailed | ChunkWriteError
  | NoMediaChunks

datatype effect =
  SpawnFfmpeg | SpawnFfplay | ServeChunks | LaunchBrowser
  | SetTimer nat | ClearTimer | ConsoleLog | ConsoleError failure
  | ChunkServerStop | BrowserClose | FfmpegStdinEnd | FfmpegKill | FfplayStdinEnd | FfplayKill
  | ProcessExit int

text \<open>
  The closure \<open>shutdown\<close>, first call: every step sits in its own \<open>try\<close>, so all of them
  run. Signals are not part of the model.
\<close>

definition shutdown :: "Mode \<Rightarrow> effect list" where
  "shutdown m =
     [ChunkServerStop, BrowserClose, FfmpegStdinEnd, FfmpegKill] @
     (if m = Dryrun then [FfplayStdinEnd, FfplayKill] else [])"

text \<open>
  \<open>main()\<close>: the effects in order, and how the promise settles (\<open>Inl\<close> rejected,
  \<open>Inr\<close> fulfilled). \<open>shutdown\<close> is declared after the \<open>await\<close> of the first-chunk promise.
\<close>

definition main :: "world \<Rightarrow> effect list \<times> (failure + unit)" where
  "main w =
     (if \<not> broadcast_reachable w then ([], Inl CannotReachBroadcast)
      else
        (let spawned = [SpawnFfmpeg] @ (if mode w = Dryrun then [SpawnFfplay] else [])
         in if mode w = Dryrun \<and> \<not> ffplay_pipes w then (spawned, Inl FfplayPipeFailed)
            else if \<not> browser_starts w then (spawned @ [ServeChunks], Inl BrowserFailed)
            else if \<not> page_loads w
            then (spawned @ [ServeChunks, LaunchBrowser], Inl PageFailed)
            else
              (let launched = spawned @ [ServeChunks, LaunchBrowser, SetTimer 10000, ClearTimer]
               in case first w of
                    NoChunk \<Rightarrow> (launched, Inl NoMediaChunks)
                  | ChunkWriteFailed \<Rightarrow> (launched, Inl ChunkWriteError)
                  | ChunkWritten \<Rightarrow>
                      (launched @ [ConsoleLog] @ shutdown (mode w) @
                       (if ffmpeg_exit w \<noteq> 0 then [ProcessExit (ffmpeg_exit w)] else []),
                       Inr ()))))"

text \<open>The script's last statement: \<open>main().catch(...)\<close>.\<close>

definition orchestrator :: "world \<Rightarrow> effect list" where
  "orchestrator w =
     (case main w of
        (effects, Inl error) \<Rightarrow> effects @ [ConsoleError error, ProcessExit 1]
      | (effects, Inr _) \<Rightarrow> effects)"

section \<open>Concrete inputs\<close>

text \<open>Models, tasks, votes and rounds for the concrete runs below.\<close>

definition model_named :: "string \<Rightarrow> Model" where
  "model_named n = \<lparr>model_id = js n, name = js n\<rparr>"

definition task_of :: "Model \<Rightarrow> TaskInfo" where
  "task_of m =
     \<lparr>model = m, startedAt = 0, finishedAt = Some 1, result = Some (js ''answer''),
      task_error = None\<rparr>"

definition vote_of :: "string \<Rightarrow> Model \<Rightarrow> VoteInfo" where
  "vote_of v m =
     \<lparr>voter = model_named v, vote_startedAt = 0, vote_finishedAt = Some 1, votedFor = Some m,
      vote_error = None\<rparr>"

definition round_of :: "Phase \<Rightarrow> jsstring option \<Rightarrow> Model \<Rightarrow> Model \<Rightarrow> VoteInfo list \<Rightarrow> RoundState" where
  "round_of ph pr a b vs =
     \<lparr>num = 1, phase = ph, prompter = model_named ''P'', promptTask = task_of (model_named ''P''),
      prompt = pr, contestants = (a, b), answerTasks = (task_of a, task_of b), votes = vs,
      scoreA = None, scoreB = None, viewerVotesA = None, viewerVotesB = None,
      viewerVotingEndsAt = None\<rparr>"

definition game_of :: "RoundState option \<Rightarrow> RoundState option \<Rightarrow> GameState" where
  "game_of l a =
     \<lparr>lastCompleted = l, active = a, scores = [], viewerScores = None, is_done = False,
      isPaused = False, generation = 0\<rparr>"

text \<open>
  The votes of X and Y for A and of Z for B, in a round of A against B.
\<close>

definition scenario_votes :: "VoteInfo list" where
  "scenario_votes =
     [vote_of ''X'' (model_named ''A''), vote_of ''Y'' (model_named ''A''),
      vote_of ''Z'' (model_named ''B'')]"

definition scenario_round :: "Phase \<Rightarrow> RoundState" where
  "scenario_round ph =
     round_of ph (Some (js ''prompt'')) (model_named ''A'') (model_named ''B'') scenario_votes"

text \<open>
  A vote of X that names A and is marked as errored, and a round of A against B in
  which it is the only vote.
\<close>

definition errored_vote :: VoteInfo where
  "errored_vote = (vote_of ''X'' (model_named ''A''))\<lparr>vote_error := Some True\<rparr>"

definition errored_vote_round :: RoundState where
  "errored_vote_round =
     round_of Done (Some (js ''prompt'')) (model_named ''A'') (model_named ''B'') [errored_vote]"

text \<open>A world in which everything starts but no media chunk ever arrives.\<close>

definition silent_world :: world where
  "silent_world =
     \<lparr>mode = Dryrun, broadcast_reachable = True, ffplay_pipes = True, browser_starts = True,
      page_loads = True, first = NoChunk, ffmpeg_exit = 0\<rparr>"

section \<open>Vocabulary of the proofs\<close>

text \<open>
  A piece or line \<open>l\<close> fits, or it is a single code unit of \<open>cs\<close> that is wider than the
  width on its own.
\<close>

definition fits_or_unit :: "(jsstring \<Rightarrow> real) \<Rightarrow> real \<Rightarrow> 16 word set \<Rightarrow> jsstring \<Rightarrow> bool" where
  "fits_or_unit w maxWidth cs l \<longleftrightarrow> w l \<le> maxWidth \<or> (\<exists>c\<in>cs. l = [c] \<and> \<not> w [c] \<le> maxWidth)"

text \<open>A returned line: as before, or such a code unit followed by the ellipsis.\<close>

definition line_ok :: "(jsstring \<Rightarrow> real) \<Rightarrow> real \<Rightarrow> 16 word set \<Rightarrow> jsstring \<Rightarrow> bool" where
  "line_ok w maxWidth cs l \<longleftrightarrow>
     w l \<le> maxWidth \<or> (\<exists>c\<in>cs. \<not> w [c] \<le> maxWidth \<and> (l = [c] \<or> l = [c] @ ellipsis))"

text \<open>The invariant of the two \<open>for\<close> loops of \<open>textLines\<close>.\<close>

definition wrap_inv :: "(jsstring \<Rightarrow> real) \<Rightarrow> real \<Rightarrow> 16 word set \<Rightarrow> wrap_state \<Rightarrow> bool" where
  "wrap_inv w maxWidth cs st \<longleftrightarrow>
     (\<forall>l\<in>set (lines st). fits_or_unit w maxWidth cs l) \<and>
     (current st = [] \<or> fits_or_unit w maxWidth cs (current st))"


section \<open>Text layout: the loops return\<close>

lemma bsearch_loop_returns:
  "\<exists>b. bsearch_loop w maxWidth remaining low high best = Some b \<and>
       (b = best \<or> (low \<le> b \<and> b \<le> high \<and> w (slice_to remaining b) \<le> maxWidth))"
proof (induction "nat (high - low + 1)" arbitrary: low high best rule: less_induct)
  case less
  show ?case
  proof (cases "low \<le> high")
    case False
    then show ?thesis by (subst bsearch_loop.simps) simp
  next
    case True
    define mid where "mid = (low + high) div 2"
    from True have mid: "low \<le> mid" "mid \<le> high" by (auto simp: mid_def)
    show ?thesis
    proof (cases "w (slice_to remaining mid) \<le> maxWidth")
      case fit: True
      have "nat (high - (mid + 1) + 1) < nat (high - low + 1)" using mid by simp
      from less[OF this, of mid] obtain b where
        b: "bsearch_loop w maxWidth remaining (mid + 1) high mid = Some b"
           "b = mid \<or> (mid + 1 \<le> b \<and> b \<le> high \<and> w (slice_to remaining b) \<le> maxWidth)"
        by blast
      have "bsearch_loop w maxWidth remaining low high best = Some b"
        using True fit b(1) by (subst bsearch_loop.simps) (simp add: mid_def Let_def)
      moreover have "low \<le> b \<and> b \<le> high \<and> w (slice_to remaining b) \<le> maxWidth"
        using b(2) mid fit by auto
      ultimately show ?thesis by blast
    next
      case nofit: False
      have "nat ((mid - 1) - low + 1) < nat (high - low + 1)" using mid by simp
      from less[OF this, of best] obtain b where
        b: "bsearch_loop w maxWidth remaining low (mid - 1) best = Some b"
           "b = best \<or> (low \<le> b \<and> b \<le> mid - 1 \<and> w (slice_to remaining b) \<le> maxWidth)"
        by blast
      have "bsearch_loop w maxWidth remaining low high best = Some b"
        using True nofit b(1) by (subst bsearch_loop.simps) (simp add: mid_def Let_def)
      moreover have "b = best \<or> (low \<le> b \<and> b \<le> high \<and> w (slice_to remaining b) \<le> maxWidth)"
        using b(2) mid by auto
      ultimately show ?thesis by blast
    qed
  qed
qed

lemma bsearch_first:
  assumes "remaining \<noteq> []"
  shows "\<exists>b. bsearch_loop w maxWidth remaining maxChunkLength (int (length remaining)) maxChunkLength
               = Some b \<and> 1 \<le> b \<and> b \<le> int (length remaining) \<and>
             (w (slice_to remaining b) \<le> maxWidth \<or> b = 1)"
proof -
  from bsearch_loop_returns[of w maxWidth remaining maxChunkLength "int (length remaining)" maxChunkLength]
  obtain b where b: "bsearch_loop w maxWidth remaining maxChunkLength (int (length remaining)) maxChunkLength = Some b"
    "b = maxChunkLength \<or> (maxChunkLength \<le> b \<and> b \<le> int (length remaining) \<and> w (slice_to remaining b) \<le> maxWidth)"
    by blast
  have "1 \<le> int (length remaining)" using assms by (cases remaining) simp_all
  with b show ?thesis by (auto simp: maxChunkLength_def)
qed

lemma split_loop_returns:
  "\<exists>qs. split_loop w maxWidth pieces remaining = Some (pieces @ qs) \<and> concat qs = remaining \<and>
        (\<forall>q\<in>set qs. q \<noteq> [] \<and> (w q \<le> maxWidth \<or> length q = 1))"
proof (induction "length remaining" arbitrary: pieces remaining rule: less_induct)
  case less
  show ?case
  proof (cases "remaining = []")
    case True
    then show ?thesis by (subst split_loop.simps) simp
  next
    case False
    from bsearch_first[OF False, of w maxWidth] obtain b where
      b: "bsearch_loop w maxWidth remaining maxChunkLength (int (length remaining)) maxChunkLength = Some b"
         "1 \<le> b" "b \<le> int (length remaining)" "w (slice_to remaining b) \<le> maxWidth \<or> b = 1"
      by blast
    define q where "q = slice_to remaining b"
    define r where "r = slice_from remaining b"
    have q: "q = take (nat b) remaining" and r: "r = drop (nat b) remaining"
      using b(2) by (simp_all add: q_def r_def slice_to_def slice_from_def)
    have lenq: "length q = nat b" using b(2,3) by (simp add: q)
    have qne: "q \<noteq> []" using lenq b(2) by auto
    have qfit: "w q \<le> maxWidth \<or> length q = 1" using b(4) lenq by (auto simp: q_def)
    have "length r < length remaining" using b(2) False by (simp add: r)
    from less[OF this, of "pieces @ [q]"] obtain qs where
      qs: "split_loop w maxWidth (pieces @ [q]) r = Some ((pieces @ [q]) @ qs)" "concat qs = r"
          "\<forall>x\<in>set qs. x \<noteq> [] \<and> (w x \<le> maxWidth \<or> length x = 1)"
      by blast
    have "split_loop w maxWidth pieces remaining = Some (pieces @ (q # qs))"
      using False b(1) qs(1) by (subst split_loop.simps) (simp add: q_def r_def)
    moreover have "concat (q # qs) = remaining" using qs(2) by (simp add: q r)
    moreover have "\<forall>x\<in>set (q # qs). x \<noteq> [] \<and> (w x \<le> maxWidth \<or> length x = 1)"
      using qs(3) qne qfit by simp
    ultimately show ?thesis by blast
  qed
qed

lemma splitWordToFit_returns:
  "\<exists>segs. splitWordToFit w maxWidth word = Some segs \<and> concat segs = word \<and>
        (\<forall>q\<in>set segs. q \<noteq> [] \<and> fits_or_unit w maxWidth (set word) q)"
proof -
  from split_loop_returns[of w maxWidth "[]" word] obtain qs where
    qs: "split_loop w maxWidth [] word = Some qs" "concat qs = word"
        "\<forall>q\<in>set qs. q \<noteq> [] \<and> (w q \<le> maxWidth \<or> length q = 1)"
    by auto
  have unit: "fits_or_unit w maxWidth (set word) q" if "q \<in> set qs" for q
  proof (cases "w q \<le> maxWidth")
    case True
    then show ?thesis by (simp add: fits_or_unit_def)
  next
    case False
    with qs(3) that have "length q = 1" by blast
    then obtain c where c: "q = [c]" by (cases q) auto
    have "set q \<subseteq> set (concat qs)" using that by auto
    then have "c \<in> set word" using c qs(2) by simp
    then show ?thesis using False c by (auto simp: fits_or_unit_def)
  qed
  show ?thesis
  proof (cases "word = []")
    case True
    then show ?thesis by (simp add: splitWordToFit_def)
  next
    case ne: False
    show ?thesis
    proof (cases "w word \<le> maxWidth")
      case True
      then show ?thesis using ne by (simp add: splitWordToFit_def fits_or_unit_def)
    next
      case False
      then have "splitWordToFit w maxWidth word = Some qs"
        using ne qs(1) by (simp add: splitWordToFit_def)
      then show ?thesis using qs(2,3) unit by blast
    qed
  qed
qed

lemma segment_loop_inv:
  "wrap_inv w maxWidth cs st \<Longrightarrow> \<forall>q\<in>set segments. fits_or_unit w maxWidth cs q \<Longrightarrow>
   wrap_inv w maxWidth cs (segment_loop w maxWidth maxLines isFirstSegment segments st)"
proof (induction segments arbitrary: st isFirstSegment)
  case Nil
  then show ?case by simp
next
  case (Cons segment segments)
  define cand where "cand = (if current st \<noteq> [] then
      current st @ (if isFirstSegment \<and> current st \<noteq> [] then js '' '' else []) @ segment else segment)"
  show ?case
  proof (cases "w cand \<le> maxWidth")
    case True
    have "wrap_inv w maxWidth cs (st\<lparr>current := cand\<rparr>)"
      using Cons.prems(1) True by (simp add: wrap_inv_def fits_or_unit_def)
    from Cons.IH[OF this] Cons.prems(2) True show ?thesis
      by (simp add: cand_def Let_def)
  next
    case False
    define st' where "st' = st\<lparr>lines := (if current st \<noteq> [] then lines st @ [current st] else lines st),
                                current := segment\<rparr>"
    have inv': "wrap_inv w maxWidth cs st'"
      using Cons.prems by (auto simp: wrap_inv_def st'_def)
    from Cons.IH[OF inv'] Cons.prems(2) inv' False show ?thesis
      by (simp add: cand_def Let_def st'_def)
  qed
qed

lemma word_loop_returns:
  "wrap_inv w maxWidth cs st \<Longrightarrow> \<forall>wd\<in>set words. set wd \<subseteq> cs \<Longrightarrow>
   \<exists>st'. word_loop w maxWidth maxLines words st = Some st' \<and> wrap_inv w maxWidth cs st'"
proof (induction words arbitrary: st)
  case Nil
  then show ?case by simp
next
  case (Cons word words)
  from splitWordToFit_returns[of w maxWidth word] obtain segs where
    segs: "splitWordToFit w maxWidth word = Some segs"
          "\<forall>q\<in>set segs. q \<noteq> [] \<and> fits_or_unit w maxWidth (set word) q"
    by blast
  have "set word \<subseteq> cs" using Cons.prems(2) by simp
  then have "\<forall>q\<in>set segs. fits_or_unit w maxWidth cs q"
    using segs(2) by (auto simp: fits_or_unit_def)
  from segment_loop_inv[OF Cons.prems(1) this]
  have inv': "wrap_inv w maxWidth cs (segment_loop w maxWidth maxLines True segs st)" .
  from Cons.IH[OF inv'] Cons.prems(2) obtain st2 where
    "word_loop w maxWidth maxLines words (segment_loop w maxWidth maxLines True segs st) = Some st2"
    "wrap_inv w maxWidth cs st2" by auto
  then show ?case using segs(1) inv' by (simp add: Let_def)
qed

lemma trim_loop_returns:
  "\<exists>t. trim_loop w maxWidth s = Some t \<and> length t \<le> length s \<and> t = take (length t) s \<and>
       (length t \<le> 3 \<or> w (t @ ellipsis) \<le> maxWidth) \<and> (3 \<le> length s \<longrightarrow> 3 \<le> length t)"
proof (induction "length s" arbitrary: s rule: less_induct)
  case less
  show ?case
  proof (cases "length s > 3 \<and> w (s @ ellipsis) > maxWidth")
    case False
    have "trim_loop w maxWidth s = Some s"
      using False by (subst trim_loop.simps) auto
    then show ?thesis using False by auto
  next
    case True
    have sl: "slice_to s (- 1) = butlast s" by (simp add: slice_to_def butlast_conv_take)
    have "length (butlast s) < length s" using True by (cases s) auto
    from less[OF this] obtain t where
      t: "trim_loop w maxWidth (butlast s) = Some t" "length t \<le> length (butlast s)"
         "t = take (length t) (butlast s)"
         "length t \<le> 3 \<or> w (t @ ellipsis) \<le> maxWidth" "3 \<le> length (butlast s) \<longrightarrow> 3 \<le> length t"
      by blast
    have "trim_loop w maxWidth s = Some t"
      using True t(1) by (subst trim_loop.simps) (simp add: sl)
    moreover have "t = take (length t) s"
      using t(2,3) by (metis butlast_conv_take length_butlast min.absorb1 take_take)
    ultimately show ?thesis using t True by auto
  qed
qed

lemma split_ws_units:
  "\<forall>x\<in>set (split_ws cur cs). set x \<subseteq> set cur \<union> set cs"
  by (induction cur cs rule: split_ws.induct) (auto dest: set_dropWhileD)

lemma words_of_units: "\<forall>wd\<in>set (words_of text). set wd \<subseteq> set text"
  using split_ws_units[of "[]" "text"] by (auto simp: words_of_def)


lemma fits_or_unit_line_ok: "fits_or_unit w maxWidth cs l \<Longrightarrow> line_ok w maxWidth cs l"
  by (auto simp: fits_or_unit_def line_ok_def)

lemma ellipsize_returns:
  assumes "\<forall>l\<in>set ls. fits_or_unit w maxWidth cs l"
  shows "\<exists>ls'. ellipsize w maxWidth maxLines words ls = Some ls' \<and> length ls' = length ls \<and>
           (\<forall>l\<in>set ls'. line_ok w maxWidth cs l)"
proof -
  have keep: "\<forall>l\<in>set ls. line_ok w maxWidth cs l"
    using assms by (simp add: fits_or_unit_line_ok)
  define last where
    "last = (if 1 \<le> maxLines \<and> maxLines - 1 < length ls then ls ! (maxLines - 1) else [])"
  show ?thesis
  proof (cases "length words > 0 \<and> length ls = maxLines \<and> w last > maxWidth")
    case False
    then have "ellipsize w maxWidth maxLines words ls = Some ls"
      by (auto simp: ellipsize_def last_def Let_def)
    then show ?thesis using keep by simp
  next
    case True
    from trim_loop_returns[of w maxWidth last] obtain t where
      t: "trim_loop w maxWidth last = Some t" "length t \<le> length last" "t = take (length t) last"
         "3 \<le> length last \<longrightarrow> 3 \<le> length t"
      by blast
    show ?thesis
    proof (cases "1 \<le> maxLines")
      case False
      then have "ellipsize w maxWidth maxLines words ls = Some ls"
        using True t(1) by (simp add: ellipsize_def last_def Let_def)
      then show ?thesis using keep by simp
    next
      case pos: True
      then have idx: "maxLines - 1 < length ls" using True by simp
      then have lastin: "last \<in> set ls" using pos by (simp add: last_def)
      with assms have "fits_or_unit w maxWidth cs last" by blast
      with True obtain c where c: "c \<in> cs" "last = [c]" "\<not> w [c] \<le> maxWidth"
        by (auto simp: fits_or_unit_def)
      have "trim_loop w maxWidth [c] = Some [c]" by (subst trim_loop.simps) simp
      with t(1) c(2) have tc: "t = [c]" by simp
      have "ellipsize w maxWidth maxLines words ls =
              Option.bind (trim_loop w maxWidth last)
                (\<lambda>trimmed. Some (ls[maxLines - 1 := trimmed @ ellipsis]))"
        using True pos unfolding ellipsize_def Let_def last_def[symmetric] by simp
      then have eq: "ellipsize w maxWidth maxLines words ls = Some (ls[maxLines - 1 := [c] @ ellipsis])"
        using t(1) tc by simp
      have "line_ok w maxWidth cs ([c] @ ellipsis)" using c by (auto simp: line_ok_def)
      then have "\<forall>l\<in>set (ls[maxLines - 1 := [c] @ ellipsis]). line_ok w maxWidth cs l"
        using keep set_update_subset_insert[of ls "maxLines - 1" "[c] @ ellipsis"] by auto
      then show ?thesis using eq by simp
    qed
  qed
qed

lemma textLines_returns:
  "\<exists>ls. textLines mw text maxWidth font maxLines = Some ls \<and> length ls \<le> maxLines \<and>
        (\<forall>l\<in>set ls. line_ok (mw font) maxWidth (set text) l)"
proof -
  define w where "w = mw font"
  define init :: wrap_state where "init = \<lparr>lines = [], current = []\<rparr>"
  have "wrap_inv w maxWidth (set text) init" by (simp add: wrap_inv_def init_def)
  from word_loop_returns[OF this words_of_units, of maxLines] obtain st where
    st: "word_loop w maxWidth maxLines (words_of text) init = Some st"
        "wrap_inv w maxWidth (set text) st"
    by blast
  define ls1 where "ls1 = (if current st \<noteq> [] then lines st @ [current st] else lines st)"
  define ls2 where "ls2 = (if length ls1 > maxLines then take maxLines ls1 else ls1)"
  have ok1: "\<forall>l\<in>set ls1. fits_or_unit w maxWidth (set text) l"
    using st(2) by (auto simp: wrap_inv_def ls1_def)
  have ok2: "\<forall>l\<in>set ls2. fits_or_unit w maxWidth (set text) l"
    using ok1 by (auto simp: ls2_def dest: in_set_takeD)
  have len2: "length ls2 \<le> maxLines" by (simp add: ls2_def)
  from ellipsize_returns[OF ok2, of maxLines "words_of text"] obtain ls' where
    ls': "ellipsize w maxWidth maxLines (words_of text) ls2 = Some ls'" "length ls' = length ls2"
         "\<forall>l\<in>set ls'. line_ok w maxWidth (set text) l"
    by blast
  have "textLines mw text maxWidth font maxLines =
          ellipsize w maxWidth maxLines (words_of text) ls2"
    using st(1) unfolding textLines_def Let_def ls2_def ls1_def w_def init_def by simp
  with ls'(1) have "textLines mw text maxWidth font maxLines = Some ls'" by simp
  then show ?thesis using ls'(2,3) len2 by (auto simp: w_def)
qed





lemma bsearch_step_halves:
  assumes "low \<le> high"
  shows "\<exists>low' high' best'.
           bsearch_loop w maxWidth remaining low high best =
             bsearch_loop w maxWidth remaining low' high' best' \<and>
           low \<le> low' \<and> high' \<le> high \<and> high' - low' + 1 \<le> (high - low + 1) div 2"
proof -
  define mid where "mid = (low + high) div 2"
  show ?thesis
  proof (cases "w (slice_to remaining mid) \<le> maxWidth")
    case True
    have "bsearch_loop w maxWidth remaining low high best =
          bsearch_loop w maxWidth remaining (mid + 1) high mid"
      using assms True by (subst bsearch_loop.simps) (simp add: mid_def Let_def)
    moreover have "low \<le> mid + 1 \<and> high \<le> high \<and> high - (mid + 1) + 1 \<le> (high - low + 1) div 2"
      using assms unfolding mid_def by linarith
    ultimately show ?thesis by blast
  next
    case False
    have "bsearch_loop w maxWidth remaining low high best =
          bsearch_loop w maxWidth remaining low (mid - 1) best"
      using assms False by (subst bsearch_loop.simps) (simp add: mid_def Let_def)
    moreover have "low \<le> low \<and> mid - 1 \<le> high \<and> (mid - 1) - low + 1 \<le> (high - low + 1) div 2"
      using assms unfolding mid_def by linarith
    ultimately show ?thesis by blast
  qed
qed

section \<open>Vote tally: the loops count by name\<close>

lemma votedFor_is_iff: "votedFor_is v n \<longleftrightarrow> (\<exists>m. votedFor v = Some m \<and> name m = n)"
  by (simp add: votedFor_is_def split: option.splits)

lemma tally_loop_votesA:
  "votesA (tally_loop a b task vs t) = votesA t + length (filter (\<lambda>v. votedFor_is v (name a)) vs)"
  by (induction vs arbitrary: t) (simp_all add: Let_def)

lemma tally_loop_votesB:
  "votesB (tally_loop a b task vs t) = votesB t + length (filter (\<lambda>v. votedFor_is v (name b)) vs)"
  by (induction vs arbitrary: t) (simp_all add: Let_def)

lemma history_loop_votesA:
  "h_votesA (history_loop a b vs t) = h_votesA t + length (filter (\<lambda>v. votedFor_is v (name a)) vs)"
  by (induction vs arbitrary: t) simp_all

lemma history_loop_votesB:
  "h_votesB (history_loop a b vs t) =
     h_votesB t + length (filter (\<lambda>v. votedFor_is v (name b) \<and> \<not> votedFor_is v (name a)) vs)"
  by (induction vs arbitrary: t) simp_all

lemma disjoint_counts:
  "(\<And>v. \<not> (P v \<and> Q v)) \<Longrightarrow> length (filter P vs) + length (filter Q vs) \<le> length vs"
  by (induction vs) auto

lemma card_votesA:
  "votesA (card_tally (drawContestantCard task rnd)) =
     length (filter (\<lambda>v. votedFor_is v (name (fst (contestants rnd)))) (votes rnd))"
  by (simp add: drawContestantCard_def Let_def tally_loop_votesA split: prod.splits)

lemma card_votesB:
  "votesB (card_tally (drawContestantCard task rnd)) =
     length (filter (\<lambda>v. votedFor_is v (name (snd (contestants rnd)))) (votes rnd))"
  by (simp add: drawContestantCard_def Let_def tally_loop_votesB split: prod.splits)

lemma hist_votesA:
  "h_votesA (hist_tally (HistoryCard rnd)) =
     length (filter (\<lambda>v. votedFor_is v (name (fst (contestants rnd)))) (votes rnd))"
  by (simp add: HistoryCard_def Let_def history_loop_votesA split: prod.splits)

lemma hist_votesB:
  "h_votesB (hist_tally (HistoryCard rnd)) =
     length (filter (\<lambda>v. votedFor_is v (name (snd (contestants rnd))) \<and>
                         \<not> votedFor_is v (name (fst (contestants rnd)))) (votes rnd))"
  by (simp add: HistoryCard_def Let_def history_loop_votesB split: prod.splits)



section \<open>Client: the recorded version and the timeouts\<close>

lemma onmessage_knownVersion_kept:
  "truthy (knownVersion p) \<Longrightarrow> knownVersion (onmessage msg now p) = knownVersion p"
  by (cases msg) (simp_all add: onmessage_def apply_state_def)

lemma handle_knownVersion_kept:
  "truthy (knownVersion p) \<Longrightarrow> knownVersion (handle e p) = knownVersion p"
  by (cases e)
     (simp_all add: onmessage_knownVersion_kept onopen_def onclose_def setStatus_def
        clearTimeout_def setTimeout_def setupWebSocket_def Let_def split: option.splits)

lemma run_knownVersion_kept:
  "truthy (knownVersion p) \<Longrightarrow> knownVersion (run es p) = knownVersion p"
  by (induction es arbitrary: p) (simp_all add: handle_knownVersion_kept)






section \<open>Text layout: line count and line width\<close>




section \<open>Round selection\<close>

text \<open>
  Claim C2. For a snapshot that is not \<open>done\<close>, \<open>draw\<close> draws the header, the scoreboard
  and one more thing: the last completed round when the active round is in phase
  \<open>prompting\<close> without prompt text (absent or empty) and a last completed round exists;
  otherwise the active round; the last completed round when there is no active round;
  the waiting placeholder when there is neither. Without a snapshot it draws the header
  and the waiting placeholder.
\<close>

theorem draw_round_selection:
  assumes "\<not> is_done s"
  shows "(\<forall>a l. active s = Some a \<and> phase a = Prompting \<and> (prompt a = None \<or> prompt a = Some []) \<and>
                lastCompleted s = Some l \<longrightarrow>
            draw (Some s) =
              [DrawHeader, DrawScoreboard (scores s) (case viewerScores s of Some v \<Rightarrow> v | None \<Rightarrow> []),
               DrawRound l]) \<and>
         (\<forall>a. active s = Some a \<and>
              \<not> (phase a = Prompting \<and> (prompt a = None \<or> prompt a = Some []) \<and>
                 lastCompleted s \<noteq> None) \<longrightarrow>
            draw (Some s) =
              [DrawHeader, DrawScoreboard (scores s) (case viewerScores s of Some v \<Rightarrow> v | None \<Rightarrow> []),
               DrawRound a]) \<and>
         (\<forall>l. active s = None \<and> lastCompleted s = Some l \<longrightarrow>
            draw (Some s) =
              [DrawHeader, DrawScoreboard (scores s) (case viewerScores s of Some v \<Rightarrow> v | None \<Rightarrow> []),
               DrawRound l]) \<and>
         (active s = None \<and> lastCompleted s = None \<longrightarrow>
            draw (Some s) =
              [DrawHeader, DrawScoreboard (scores s) (case viewerScores s of Some v \<Rightarrow> v | None \<Rightarrow> []),
               DrawWaiting]) \<and>
         draw None = [DrawHeader, DrawWaiting]"
  using assms by (auto simp: draw_def truthy_def Let_def split: option.splits)

text \<open>
  The four cases on concrete snapshots: a new round still writing its prompt after a
  completed one, a round in its voting phase, no active round, and no round at all.
\<close>

theorem draw_round_selection_witness:
  "\<not> is_done (game_of (Some (scenario_round Done))
                (Some (round_of Prompting None (model_named ''C'') (model_named ''D'') []))) \<and>
   draw (Some (game_of (Some (scenario_round Done))
                (Some (round_of Prompting None (model_named ''C'') (model_named ''D'') [])))) =
     [DrawHeader, DrawScoreboard [] [], DrawRound (scenario_round Done)] \<and>
   draw (Some (game_of (Some (scenario_round Done)) (Some (scenario_round Voting)))) =
     [DrawHeader, DrawScoreboard [] [], DrawRound (scenario_round Voting)] \<and>
   draw (Some (game_of (Some (scenario_round Done)) None)) =
     [DrawHeader, DrawScoreboard [] [], DrawRound (scenario_round Done)] \<and>
   draw (Some (game_of None None)) = [DrawHeader, DrawScoreboard [] [], DrawWaiting]"
proof -
  have d: "\<not> is_done (game_of l a)" for l a by (simp add: game_of_def)
  have 1: "draw (Some (game_of (Some (scenario_round Done))
                (Some (round_of Prompting None (model_named ''C'') (model_named ''D'') [])))) =
     [DrawHeader, DrawScoreboard [] [], DrawRound (scenario_round Done)]"
    using draw_round_selection[OF d[of "Some (scenario_round Done)"
        "Some (round_of Prompting None (model_named ''C'') (model_named ''D'') [])"]]
    by (simp add: game_of_def round_of_def)
  have 2: "draw (Some (game_of (Some (scenario_round Done)) (Some (scenario_round Voting)))) =
     [DrawHeader, DrawScoreboard [] [], DrawRound (scenario_round Voting)]"
    using draw_round_selection[OF d[of "Some (scenario_round Done)" "Some (scenario_round Voting)"]]
    by (simp add: game_of_def scenario_round_def round_of_def)
  have 3: "draw (Some (game_of (Some (scenario_round Done)) None)) =
     [DrawHeader, DrawScoreboard [] [], DrawRound (scenario_round Done)]"
    using draw_round_selection[OF d[of "Some (scenario_round Done)" None]]
    by (simp add: game_of_def)
  have 4: "draw (Some (game_of None None)) = [DrawHeader, DrawScoreboard [] [], DrawWaiting]"
    using draw_round_selection[OF d[of None None]]
    by (simp add: game_of_def)
  from d 1 2 3 4 show ?thesis by blast
qed

section \<open>Derived vote counts\<close>

text \<open>
  Claim C3, as the code has it. Two contestants are two models, and models are the same
  when their names are; so the names of the two contestants differ. Then, on the
  broadcast canvas and on the history page alike, the count of a contestant is the
  number of votes whose \<open>votedFor\<close> is present and carries that contestant's name, and
  \<open>votesA + votesB\<close> is at most the number of votes. One more vote whose \<open>votedFor\<close> is
  absent, or names neither contestant, changes neither count. The error mark of a vote
  is not read: the counts stay the same when the marks are set in any other way.
\<close>

theorem vote_counts_by_name:
  assumes "name (fst (contestants rnd)) \<noteq> name (snd (contestants rnd))"
  shows "votesA (card_tally (drawContestantCard task rnd)) =
           length (filter (\<lambda>v. \<exists>m. votedFor v = Some m \<and> name m = name (fst (contestants rnd)))
                     (votes rnd)) \<and>
         votesB (card_tally (drawContestantCard task rnd)) =
           length (filter (\<lambda>v. \<exists>m. votedFor v = Some m \<and> name m = name (snd (contestants rnd)))
                     (votes rnd)) \<and>
         votesA (card_tally (drawContestantCard task rnd)) +
         votesB (card_tally (drawContestantCard task rnd)) \<le> length (votes rnd) \<and>
         h_votesA (hist_tally (HistoryCard rnd)) =
           length (filter (\<lambda>v. \<exists>m. votedFor v = Some m \<and> name m = name (fst (contestants rnd)))
                     (votes rnd)) \<and>
         h_votesB (hist_tally (HistoryCard rnd)) =
           length (filter (\<lambda>v. \<exists>m. votedFor v = Some m \<and> name m = name (snd (contestants rnd)))
                     (votes rnd)) \<and>
         h_votesA (hist_tally (HistoryCard rnd)) + h_votesB (hist_tally (HistoryCard rnd))
           \<le> length (votes rnd) \<and>
         (votedFor v = None \<or>
          (\<exists>m. votedFor v = Some m \<and> name m \<noteq> name (fst (contestants rnd)) \<and>
               name m \<noteq> name (snd (contestants rnd))) \<longrightarrow>
            votesA (card_tally (drawContestantCard task (rnd\<lparr>votes := votes rnd @ [v]\<rparr>))) =
              votesA (card_tally (drawContestantCard task rnd)) \<and>
            votesB (card_tally (drawContestantCard task (rnd\<lparr>votes := votes rnd @ [v]\<rparr>))) =
              votesB (card_tally (drawContestantCard task rnd)) \<and>
            h_votesA (hist_tally (HistoryCard (rnd\<lparr>votes := votes rnd @ [v]\<rparr>))) =
              h_votesA (hist_tally (HistoryCard rnd)) \<and>
            h_votesB (hist_tally (HistoryCard (rnd\<lparr>votes := votes rnd @ [v]\<rparr>))) =
              h_votesB (hist_tally (HistoryCard rnd))) \<and>
         votesA (card_tally (drawContestantCard task
                   (rnd\<lparr>votes := map (\<lambda>x. x\<lparr>vote_error := e x\<rparr>) (votes rnd)\<rparr>))) =
           votesA (card_tally (drawContestantCard task rnd)) \<and>
         votesB (card_tally (drawContestantCard task
                   (rnd\<lparr>votes := map (\<lambda>x. x\<lparr>vote_error := e x\<rparr>) (votes rnd)\<rparr>))) =
           votesB (card_tally (drawContestantCard task rnd)) \<and>
         h_votesA (hist_tally (HistoryCard
                   (rnd\<lparr>votes := map (\<lambda>x. x\<lparr>vote_error := e x\<rparr>) (votes rnd)\<rparr>))) =
           h_votesA (hist_tally (HistoryCard rnd)) \<and>
         h_votesB (hist_tally (HistoryCard
                   (rnd\<lparr>votes := map (\<lambda>x. x\<lparr>vote_error := e x\<rparr>) (votes rnd)\<rparr>))) =
           h_votesB (hist_tally (HistoryCard rnd))"
proof -
  let ?a = "name (fst (contestants rnd))" and ?b = "name (snd (contestants rnd))"
  let ?more = "rnd\<lparr>votes := votes rnd @ [v]\<rparr>"
  let ?marked = "rnd\<lparr>votes := map (\<lambda>x. x\<lparr>vote_error := e x\<rparr>) (votes rnd)\<rparr>"
  have ex: "(\<lambda>x. \<exists>m. votedFor x = Some m \<and> name m = n) = (\<lambda>x. votedFor_is x n)" for n
    by (simp add: votedFor_is_iff)
  have excl: "(\<lambda>x. votedFor_is x ?b \<and> \<not> votedFor_is x ?a) = (\<lambda>x. votedFor_is x ?b)"
    using assms by (auto simp: votedFor_is_iff)
  have cA: "votesA (card_tally (drawContestantCard task r)) =
              length (filter (\<lambda>x. votedFor_is x ?a) (votes r))"
    if "contestants r = contestants rnd" for r
    unfolding card_votesA that ..
  have cB: "votesB (card_tally (drawContestantCard task r)) =
              length (filter (\<lambda>x. votedFor_is x ?b) (votes r))"
    if "contestants r = contestants rnd" for r
    unfolding card_votesB that ..
  have hA: "h_votesA (hist_tally (HistoryCard r)) =
              length (filter (\<lambda>x. votedFor_is x ?a) (votes r))"
    if "contestants r = contestants rnd" for r
    unfolding hist_votesA that ..
  have hB: "h_votesB (hist_tally (HistoryCard r)) =
              length (filter (\<lambda>x. votedFor_is x ?b) (votes r))"
    if "contestants r = contestants rnd" for r
    unfolding hist_votesB that excl ..
  have sum: "length (filter (\<lambda>x. votedFor_is x ?a) (votes rnd)) +
             length (filter (\<lambda>x. votedFor_is x ?b) (votes rnd)) \<le> length (votes rnd)"
    using assms by (intro disjoint_counts) (auto simp: votedFor_is_iff)
  have err: "length (filter (\<lambda>x. votedFor_is x n) (map (\<lambda>x. x\<lparr>vote_error := e x\<rparr>) vs)) =
             length (filter (\<lambda>x. votedFor_is x n) vs)" for n vs
    by (induction vs) (simp_all add: votedFor_is_def)
  have c_more: "contestants ?more = contestants rnd" "votes ?more = votes rnd @ [v]"
    by simp_all
  have c_marked: "contestants ?marked = contestants rnd"
    "votes ?marked = map (\<lambda>x. x\<lparr>vote_error := e x\<rparr>) (votes rnd)"
    by simp_all
  have 1: "votesA (card_tally (drawContestantCard task rnd)) =
             length (filter (\<lambda>x. votedFor_is x ?a) (votes rnd))"
    by (rule cA) simp
  have 2: "votesB (card_tally (drawContestantCard task rnd)) =
             length (filter (\<lambda>x. votedFor_is x ?b) (votes rnd))"
    by (rule cB) simp
  have 4: "h_votesA (hist_tally (HistoryCard rnd)) =
             length (filter (\<lambda>x. votedFor_is x ?a) (votes rnd))"
    by (rule hA) simp
  have 5: "h_votesB (hist_tally (HistoryCard rnd)) =
             length (filter (\<lambda>x. votedFor_is x ?b) (votes rnd))"
    by (rule hB) simp
  have 3: "votesA (card_tally (drawContestantCard task rnd)) +
           votesB (card_tally (drawContestantCard task rnd)) \<le> length (votes rnd)"
    unfolding 1 2 by (rule sum)
  have 6: "h_votesA (hist_tally (HistoryCard rnd)) + h_votesB (hist_tally (HistoryCard rnd))
             \<le> length (votes rnd)"
    unfolding 4 5 by (rule sum)
  have 7: "votedFor v = None \<or>
          (\<exists>m. votedFor v = Some m \<and> name m \<noteq> ?a \<and> name m \<noteq> ?b) \<longrightarrow>
            votesA (card_tally (drawContestantCard task ?more)) =
              votesA (card_tally (drawContestantCard task rnd)) \<and>
            votesB (card_tally (drawContestantCard task ?more)) =
              votesB (card_tally (drawContestantCard task rnd)) \<and>
            h_votesA (hist_tally (HistoryCard ?more)) = h_votesA (hist_tally (HistoryCard rnd)) \<and>
            h_votesB (hist_tally (HistoryCard ?more)) = h_votesB (hist_tally (HistoryCard rnd))"
  proof
    assume "votedFor v = None \<or>
          (\<exists>m. votedFor v = Some m \<and> name m \<noteq> ?a \<and> name m \<noteq> ?b)"
    then have no: "\<not> votedFor_is v ?a" "\<not> votedFor_is v ?b"
      by (auto simp: votedFor_is_iff)
    show "votesA (card_tally (drawContestantCard task ?more)) =
              votesA (card_tally (drawContestantCard task rnd)) \<and>
            votesB (card_tally (drawContestantCard task ?more)) =
              votesB (card_tally (drawContestantCard task rnd)) \<and>
            h_votesA (hist_tally (HistoryCard ?more)) = h_votesA (hist_tally (HistoryCard rnd)) \<and>
            h_votesB (hist_tally (HistoryCard ?more)) = h_votesB (hist_tally (HistoryCard rnd))"
      unfolding cA[OF c_more(1)] cB[OF c_more(1)] hA[OF c_more(1)] hB[OF c_more(1)] 1 2 4 5
        c_more(2)
      using no by simp
  qed
  have 8: "votesA (card_tally (drawContestantCard task ?marked)) =
             votesA (card_tally (drawContestantCard task rnd))"
          "votesB (card_tally (drawContestantCard task ?marked)) =
             votesB (card_tally (drawContestantCard task rnd))"
          "h_votesA (hist_tally (HistoryCard ?marked)) = h_votesA (hist_tally (HistoryCard rnd))"
          "h_votesB (hist_tally (HistoryCard ?marked)) = h_votesB (hist_tally (HistoryCard rnd))"
    unfolding cA[OF c_marked(1)] cB[OF c_marked(1)] hA[OF c_marked(1)] hB[OF c_marked(1)] 1 2 4 5
      c_marked(2) err by (rule refl)+
  show ?thesis
    unfolding ex using 1 2 3 4 5 6 7 8 by (intro conjI)
qed

text \<open>
  The scenario of X and Y voting for A and Z voting for B: \<open>votesA = 2\<close>, \<open>votesB = 1\<close> in
  both views, and a further vote of W without \<open>votedFor\<close> changes nothing.
\<close>

theorem vote_counts_by_name_witness:
  "name (fst (contestants (scenario_round Done))) \<noteq> name (snd (contestants (scenario_round Done))) \<and>
   votesA (card_tally (drawContestantCard (task_of (model_named ''A'')) (scenario_round Done))) = 2 \<and>
   votesB (card_tally (drawContestantCard (task_of (model_named ''A'')) (scenario_round Done))) = 1 \<and>
   votesA (card_tally (drawContestantCard (task_of (model_named ''A'')) (scenario_round Done))) +
   votesB (card_tally (drawContestantCard (task_of (model_named ''A'')) (scenario_round Done)))
     \<le> length (votes (scenario_round Done)) \<and>
   h_votesA (hist_tally (HistoryCard (scenario_round Done))) = 2 \<and>
   h_votesB (hist_tally (HistoryCard (scenario_round Done))) = 1 \<and>
   votesA (card_tally (drawContestantCard (task_of (model_named ''A''))
      ((scenario_round Done)\<lparr>votes := votes (scenario_round Done) @
          [(vote_of ''W'' (model_named ''A''))\<lparr>votedFor := None\<rparr>]\<rparr>))) = 2"
proof -
  have ne: "name (fst (contestants (scenario_round Done))) \<noteq> name (snd (contestants (scenario_round Done)))"
    by (simp add: scenario_round_def round_of_def model_named_def js_def)
  have absent: "votedFor ((vote_of ''W'' (model_named ''A''))\<lparr>votedFor := None\<rparr>) = None"
    by simp
  note t = vote_counts_by_name[OF ne, of "task_of (model_named ''A'')"
      "(vote_of ''W'' (model_named ''A''))\<lparr>votedFor := None\<rparr>"]
  have va: "length (filter (\<lambda>v. \<exists>m. votedFor v = Some m \<and>
                name m = name (fst (contestants (scenario_round Done))))
              (votes (scenario_round Done))) = 2"
    by (simp add: scenario_round_def round_of_def scenario_votes_def vote_of_def model_named_def
                  js_def)
  have vb: "length (filter (\<lambda>v. \<exists>m. votedFor v = Some m \<and>
                name m = name (snd (contestants (scenario_round Done))))
              (votes (scenario_round Done))) = 1"
    by (simp add: scenario_round_def round_of_def scenario_votes_def vote_of_def model_named_def
                  js_def)
  have len: "length (votes (scenario_round Done)) = 3"
    by (simp add: scenario_round_def round_of_def scenario_votes_def)
  from t absent ne show ?thesis
    unfolding va vb len by simp
qed

text \<open>
  Claim C3, as stated, fails for a vote that is marked as errored and names a
  contestant: the vote of \<open>errored_vote_round\<close> is counted for A in both views.
\<close>

theorem errored_vote_counterexample:
  "vote_error errored_vote = Some True \<and>
   votes errored_vote_round = [errored_vote] \<and>
   votesA (card_tally (drawContestantCard (fst (answerTasks errored_vote_round))
                         errored_vote_round)) = 1 \<and>
   h_votesA (hist_tally (HistoryCard errored_vote_round)) = 1"
  by (simp add: card_votesA hist_votesA votedFor_is_def errored_vote_round_def errored_vote_def
                round_of_def vote_of_def model_named_def js_def)

section \<open>Winner badge\<close>



section \<open>Protocol version\<close>

text \<open>
  Claim C5. A state message carrying a version \<open>v\<close> (a non-empty string): when no
  version is known yet, \<open>v\<close> is recorded and the message is applied; in particular the
  first state message on a fresh page records its version, and the recorded version
  stays through every later event. When another version is known, the handler calls
  \<open>location.reload()\<close> once and changes nothing else, so the payload is not applied.
  When \<open>v\<close> is the known version, or the message carries no version (absent or empty),
  the message is applied: the snapshot, the viewer count and the time of the last
  message are set, and neither the reload count nor the known version changes.
\<close>

theorem version_check:
  assumes "v \<noteq> []"
  shows "(knownVersion p = None \<longrightarrow>
            onmessage (StateMessage d tr vc (Some v)) now p =
              apply_state d tr vc now (p\<lparr>knownVersion := Some v\<rparr>)) \<and>
         knownVersion (onmessage (StateMessage d tr vc (Some v)) now initial_page) = Some v \<and>
         knownVersion (run es (onmessage (StateMessage d tr vc (Some v)) now initial_page)) = Some v \<and>
         (\<forall>k. knownVersion p = Some k \<and> k \<noteq> [] \<and> k \<noteq> v \<longrightarrow>
            onmessage (StateMessage d tr vc (Some v)) now p = p\<lparr>reloads := reloads p + 1\<rparr>) \<and>
         (knownVersion p = Some v \<longrightarrow>
            onmessage (StateMessage d tr vc (Some v)) now p =
              apply_state d tr vc now p) \<and>
         onmessage (StateMessage d tr vc None) now p = apply_state d tr vc now p \<and>
         onmessage (StateMessage d tr vc (Some [])) now p =
           apply_state d tr vc now p \<and>
         state (apply_state d tr vc now q) = Some d \<and>
         viewerCount (apply_state d tr vc now q) = vc \<and>
         lastMessageAt (apply_state d tr vc now q) = now \<and>
         reloads (apply_state d tr vc now q) = reloads q \<and>
         knownVersion (apply_state d tr vc now q) = knownVersion q"
proof -
  have first: "knownVersion (onmessage (StateMessage d tr vc (Some v)) now initial_page) = Some v"
    using assms
    by (simp add: onmessage_def apply_state_def truthy_def initial_page_def setupWebSocket_def)
  then have "truthy (knownVersion (onmessage (StateMessage d tr vc (Some v)) now initial_page))"
    using assms by (simp add: truthy_def)
  from run_knownVersion_kept[OF this, of es] first
  have kept: "knownVersion (run es (onmessage (StateMessage d tr vc (Some v)) now initial_page)) = Some v"
    by simp
  show ?thesis
    using assms first kept by (auto simp: onmessage_def apply_state_def truthy_def)
qed

text \<open>
  A fresh page records \<open>v2\<close>; a page that knows \<open>v1\<close> reloads once on \<open>v2\<close> and keeps its
  state; a page that knows \<open>v2\<close> applies the message.
\<close>

theorem version_check_witness:
  "js ''v2'' \<noteq> [] \<and>
   knownVersion (onmessage (StateMessage (game_of None None) (Some 5) 3 (Some (js ''v2''))) 100
                   initial_page) = Some (js ''v2'') \<and>
   onmessage (StateMessage (game_of None None) (Some 5) 3 (Some (js ''v2''))) 100
      (initial_page\<lparr>knownVersion := Some (js ''v1'')\<rparr>)
     = initial_page\<lparr>knownVersion := Some (js ''v1''), reloads := 1\<rparr> \<and>
   state (onmessage (StateMessage (game_of None None) (Some 5) 3 (Some (js ''v2''))) 100
      (initial_page\<lparr>knownVersion := Some (js ''v2'')\<rparr>)) = Some (game_of None None)"
proof -
  have ne: "js ''v2'' \<noteq> []" by (simp add: js_def)
  note t = version_check[OF ne, of "initial_page\<lparr>knownVersion := Some (js ''v1'')\<rparr>"
      "game_of None None" "Some 5" 3 100 "[]"
      "initial_page\<lparr>knownVersion := Some (js ''v2'')\<rparr>"]
  note u = version_check[OF ne, of "initial_page\<lparr>knownVersion := Some (js ''v2'')\<rparr>"
      "game_of None None" "Some 5" 3 100 "[]"
      "initial_page\<lparr>knownVersion := Some (js ''v2'')\<rparr>"]
  have k: "js ''v1'' \<noteq> [] \<and> js ''v1'' \<noteq> js ''v2''" by (simp add: js_def)
  have r: "reloads initial_page = 0" by (simp add: initial_page_def setupWebSocket_def)
  from t k r have 2: "onmessage (StateMessage (game_of None None) (Some 5) 3 (Some (js ''v2''))) 100
      (initial_page\<lparr>knownVersion := Some (js ''v1'')\<rparr>)
     = initial_page\<lparr>knownVersion := Some (js ''v1''), reloads := 1\<rparr>"
    by simp
  from u have 3: "state (onmessage (StateMessage (game_of None None) (Some 5) 3 (Some (js ''v2''))) 100
      (initial_page\<lparr>knownVersion := Some (js ''v2'')\<rparr>)) = Some (game_of None None)"
    by simp
  from ne t 2 3 show ?thesis by blast
qed

section \<open>Viewer count message\<close>

text \<open>
  Claim C6. A \<open>viewerCount\<close> message changes the viewer counter and nothing else: the
  snapshot, \<open>totalRounds\<close>, the known version and the time of the last message keep
  their values.
\<close>

theorem viewerCount_frame:
  "onmessage (ViewerCountMessage n) now p = p\<lparr>viewerCount := n\<rparr> \<and>
   viewerCount (onmessage (ViewerCountMessage n) now p) = n \<and>
   state (onmessage (ViewerCountMessage n) now p) = state p \<and>
   totalRounds (onmessage (ViewerCountMessage n) now p) = totalRounds p \<and>
   knownVersion (onmessage (ViewerCountMessage n) now p) = knownVersion p \<and>
   lastMessageAt (onmessage (ViewerCountMessage n) now p) = lastMessageAt p \<and>
   reloads (onmessage (ViewerCountMessage n) now p) = reloads p"
  by (simp add: onmessage_def)

section \<open>Reconnect timer\<close>



section \<open>Capture backpressure\<close>

text \<open>
  Claim C8. The handler sends nothing and raises nothing when the chunk is empty, the
  socket is not open, or more than 16,000,000 bytes are buffered (17,000,000 for
  instance); otherwise it sends the chunk. A socket that was open is never connecting
  again after the \<open>await\<close>, and then no call raises.
\<close>

theorem capture_backpressure:
  "(length event_data = 0 \<or> readyState socket \<noteq> OPEN \<or> bufferedAmount socket > 16000000 \<longrightarrow>
      ondataavailable event_data socket after = Inr []) \<and>
   (length event_data \<noteq> 0 \<and> readyState socket = OPEN \<and> bufferedAmount socket \<le> 16000000 \<and>
    readyState after \<noteq> CONNECTING \<longrightarrow>
      ondataavailable event_data socket after = Inr [event_data]) \<and>
   (readyState after \<noteq> CONNECTING \<longrightarrow>
      (\<forall>e. ondataavailable event_data socket after \<noteq> Inl e)) \<and>
   ondataavailable event_data \<lparr>readyState = OPEN, bufferedAmount = 17000000\<rparr> after = Inr []"
  by (auto simp: ondataavailable_def socket_send_def)

text \<open>
  17,000,000 buffered bytes, a closed socket and an empty chunk each send nothing; at
  exactly 16,000,000 the chunk is sent.
\<close>

theorem capture_backpressure_witness:
  "ondataavailable [1, 2, 3] \<lparr>readyState = OPEN, bufferedAmount = 17000000\<rparr>
      \<lparr>readyState = OPEN, bufferedAmount = 17000000\<rparr> = Inr [] \<and>
   ondataavailable [1, 2, 3] \<lparr>readyState = CLOSED, bufferedAmount = 0\<rparr>
      \<lparr>readyState = CLOSED, bufferedAmount = 0\<rparr> = Inr [] \<and>
   ondataavailable [] \<lparr>readyState = OPEN, bufferedAmount = 0\<rparr>
      \<lparr>readyState = OPEN, bufferedAmount = 0\<rparr> = Inr [] \<and>
   ondataavailable [1, 2, 3] \<lparr>readyState = OPEN, bufferedAmount = 16000000\<rparr>
      \<lparr>readyState = OPEN, bufferedAmount = 16000003\<rparr> = Inr [[1, 2, 3]]"
proof -
  note a = capture_backpressure[of "[1, 2, 3]" "\<lparr>readyState = OPEN, bufferedAmount = 17000000\<rparr>"
      "\<lparr>readyState = OPEN, bufferedAmount = 17000000\<rparr>"]
  note b = capture_backpressure[of "[1, 2, 3]" "\<lparr>readyState = CLOSED, bufferedAmount = 0\<rparr>"
      "\<lparr>readyState = CLOSED, bufferedAmount = 0\<rparr>"]
  note c = capture_backpressure[of "[]" "\<lparr>readyState = OPEN, bufferedAmount = 0\<rparr>"
      "\<lparr>readyState = OPEN, bufferedAmount = 0\<rparr>"]
  note d = capture_backpressure[of "[1, 2, 3]" "\<lparr>readyState = OPEN, bufferedAmount = 16000000\<rparr>"
      "\<lparr>readyState = OPEN, bufferedAmount = 16000003\<rparr>"]
  from a b c d show ?thesis by simp
qed

section \<open>Readiness gate of the orchestrator\<close>

text \<open>
  Claim C9, evaluated. When no media chunk arrives, the orchestrator logs the error and
  exits with code 1, and that is all: the browser is not closed, the chunk server is
  not stopped, \<open>ffmpeg\<close> and \<open>ffplay\<close> are not killed. The steps of \<open>shutdown\<close> do run
  when the first chunk arrives.
\<close>

theorem no_chunk_exits_without_teardown:
  "orchestrator silent_world =
     [SpawnFfmpeg, SpawnFfplay, ServeChunks, LaunchBrowser, SetTimer 10000, ClearTimer,
      ConsoleError NoMediaChunks, ProcessExit 1] \<and>
   BrowserClose \<notin> set (orchestrator silent_world) \<and>
   FfmpegKill \<notin> set (orchestrator silent_world) \<and>
   FfplayKill \<notin> set (orchestrator silent_world) \<and>
   ChunkServerStop \<notin> set (orchestrator silent_world) \<and>
   set (shutdown Dryrun) \<subseteq> set (orchestrator (silent_world\<lparr>first := ChunkWritten\<rparr>))"
  by (simp add: orchestrator_def main_def silent_world_def shutdown_def)

section \<open>Text layout: termination\<close>

text \<open>
  Claim C10. \<open>textLines\<close> returns for every text, width, font and line cap. The binary
  search returns from every loop state, and a step at least halves its interval; the
  word-split loop returns, since the search gives a count of at least 1 and the remainder
  gets shorter; the ellipsis loop returns, each step drops one code unit, and it does
  not shorten a line of three or more code units below three.
\<close>

theorem textLines_terminates:
  "(\<exists>ls. textLines mw text maxWidth font maxLines = Some ls) \<and>
   (\<exists>b. bsearch_loop w maxWidth remaining low high best = Some b) \<and>
   (low \<le> high \<longrightarrow>
      (\<exists>low' high' best'.
          bsearch_loop w maxWidth remaining low high best =
            bsearch_loop w maxWidth remaining low' high' best' \<and>
          low \<le> low' \<and> high' \<le> high \<and> high' - low' + 1 \<le> (high - low + 1) div 2)) \<and>
   (low \<le> high \<longrightarrow>
      bsearch_loop w maxWidth remaining low high best =
        (if w (slice_to remaining ((low + high) div 2)) \<le> maxWidth
         then bsearch_loop w maxWidth remaining ((low + high) div 2 + 1) high ((low + high) div 2)
         else bsearch_loop w maxWidth remaining low ((low + high) div 2 - 1) best) \<and>
      high - ((low + high) div 2 + 1) + 1 \<le> (high - low + 1) div 2 \<and>
      ((low + high) div 2 - 1) - low + 1 \<le> (high - low + 1) div 2) \<and>
   (\<exists>ps. split_loop w maxWidth pieces remaining = Some ps) \<and>
   (remaining \<noteq> [] \<longrightarrow>
      (\<exists>b. bsearch_loop w maxWidth remaining maxChunkLength (int (length remaining)) maxChunkLength
             = Some b \<and>
           1 \<le> b \<and> length (slice_from remaining b) < length remaining)) \<and>
   (\<exists>t. trim_loop w maxWidth trimmed = Some t \<and> length t \<le> length trimmed \<and>
        (3 \<le> length trimmed \<longrightarrow> 3 \<le> length t) \<and>
        (length t \<le> 3 \<or> w (t @ ellipsis) \<le> maxWidth)) \<and>
   (length trimmed > 3 \<and> w (trimmed @ ellipsis) > maxWidth \<longrightarrow>
      trim_loop w maxWidth trimmed = trim_loop w maxWidth (slice_to trimmed (- 1)) \<and>
      length (slice_to trimmed (- 1)) < length trimmed)"
proof -
  have 1: "\<exists>ls. textLines mw text maxWidth font maxLines = Some ls"
    using textLines_returns[of mw "text" maxWidth font maxLines] by blast
  have 2: "\<exists>b. bsearch_loop w maxWidth remaining low high best = Some b"
    using bsearch_loop_returns[of w maxWidth remaining low high best] by blast
  have 3: "low \<le> high \<longrightarrow>
      (\<exists>low' high' best'.
          bsearch_loop w maxWidth remaining low high best =
            bsearch_loop w maxWidth remaining low' high' best' \<and>
          low \<le> low' \<and> high' \<le> high \<and> high' - low' + 1 \<le> (high - low + 1) div 2)"
    using bsearch_step_halves[of low high w maxWidth remaining best] by blast
  have step: "low \<le> high \<longrightarrow>
      bsearch_loop w maxWidth remaining low high best =
        (if w (slice_to remaining ((low + high) div 2)) \<le> maxWidth
         then bsearch_loop w maxWidth remaining ((low + high) div 2 + 1) high ((low + high) div 2)
         else bsearch_loop w maxWidth remaining low ((low + high) div 2 - 1) best) \<and>
      high - ((low + high) div 2 + 1) + 1 \<le> (high - low + 1) div 2 \<and>
      ((low + high) div 2 - 1) - low + 1 \<le> (high - low + 1) div 2"
  proof
    assume le: "low \<le> high"
    have "bsearch_loop w maxWidth remaining low high best =
        (if w (slice_to remaining ((low + high) div 2)) \<le> maxWidth
         then bsearch_loop w maxWidth remaining ((low + high) div 2 + 1) high ((low + high) div 2)
         else bsearch_loop w maxWidth remaining low ((low + high) div 2 - 1) best)"
      using le by (subst bsearch_loop.simps) (simp add: Let_def)
    moreover have "high - ((low + high) div 2 + 1) + 1 \<le> (high - low + 1) div 2"
      using le by linarith
    moreover have "((low + high) div 2 - 1) - low + 1 \<le> (high - low + 1) div 2"
      using le by linarith
    ultimately show "bsearch_loop w maxWidth remaining low high best =
        (if w (slice_to remaining ((low + high) div 2)) \<le> maxWidth
         then bsearch_loop w maxWidth remaining ((low + high) div 2 + 1) high ((low + high) div 2)
         else bsearch_loop w maxWidth remaining low ((low + high) div 2 - 1) best) \<and>
      high - ((low + high) div 2 + 1) + 1 \<le> (high - low + 1) div 2 \<and>
      ((low + high) div 2 - 1) - low + 1 \<le> (high - low + 1) div 2"
      by blast
  qed
  have 4: "\<exists>ps. split_loop w maxWidth pieces remaining = Some ps"
    using split_loop_returns[of w maxWidth pieces remaining] by blast
  have 5: "remaining \<noteq> [] \<longrightarrow>
      (\<exists>b. bsearch_loop w maxWidth remaining maxChunkLength (int (length remaining)) maxChunkLength
             = Some b \<and>
           1 \<le> b \<and> length (slice_from remaining b) < length remaining)"
  proof
    assume ne: "remaining \<noteq> []"
    from bsearch_first[OF ne, of w maxWidth] obtain b where
      b: "bsearch_loop w maxWidth remaining maxChunkLength (int (length remaining)) maxChunkLength
            = Some b" "1 \<le> b"
      by blast
    have "length (slice_from remaining b) < length remaining"
      using b(2) ne by (simp add: slice_from_def)
    with b show "\<exists>b. bsearch_loop w maxWidth remaining maxChunkLength (int (length remaining))
        maxChunkLength = Some b \<and> 1 \<le> b \<and> length (slice_from remaining b) < length remaining"
      by blast
  qed
  have 6: "\<exists>t. trim_loop w maxWidth trimmed = Some t \<and> length t \<le> length trimmed \<and>
        (3 \<le> length trimmed \<longrightarrow> 3 \<le> length t) \<and>
        (length t \<le> 3 \<or> w (t @ ellipsis) \<le> maxWidth)"
    using trim_loop_returns[of w maxWidth trimmed] by blast
  have 7: "length trimmed > 3 \<and> w (trimmed @ ellipsis) > maxWidth \<longrightarrow>
      trim_loop w maxWidth trimmed = trim_loop w maxWidth (slice_to trimmed (- 1)) \<and>
      length (slice_to trimmed (- 1)) < length trimmed"
  proof
    assume c: "length trimmed > 3 \<and> w (trimmed @ ellipsis) > maxWidth"
    have "trim_loop w maxWidth trimmed = trim_loop w maxWidth (slice_to trimmed (- 1))"
      using c by (subst trim_loop.simps) simp
    moreover have "length (slice_to trimmed (- 1)) < length trimmed"
      using c by (cases trimmed) (auto simp: slice_to_def)
    ultimately show "trim_loop w maxWidth trimmed = trim_loop w maxWidth (slice_to trimmed (- 1)) \<and>
      length (slice_to trimmed (- 1)) < length trimmed" by blast
  qed
  from 1 2 3 step 4 5 6 7 show ?thesis by blast
qed

text \<open>
  A word of ten code units without a space, and a word whose code units are each wider
  than the width.
\<close>

theorem textLines_terminates_witness:
  "textLines fixed_pitch (js ''abcdefghij'') 35 (js ''16px serif'') 3
     = Some [js ''abc'', js ''def'', js ''ghi''] \<and>
   textLines fixed_pitch (js ''ab'') 5 (js ''16px serif'') 3 = Some [js ''a'', js ''b''] \<and>
   (\<exists>b. bsearch_loop (fixed_pitch (js ''16px serif'')) 35 (js ''abcdefghij'') 1 10 1 = Some b \<and>
        1 \<le> b \<and> length (slice_from (js ''abcdefghij'') b) < 10) \<and>
   (\<exists>t. trim_loop (fixed_pitch (js ''16px serif'')) 35 (js ''abcdefghij'') = Some t \<and>
        3 \<le> length t)"
proof -
  note t = textLines_terminates[of fixed_pitch "js ''abcdefghij''" 35 "js ''16px serif''" 3
      "fixed_pitch (js ''16px serif'')" "js ''abcdefghij''" 1 10 1 "[]" "js ''abcdefghij''"]
  have ne: "js ''abcdefghij'' \<noteq> []" by (simp add: js_def)
  have len: "length (js ''abcdefghij'') = 10" by (simp add: js_def)
  have 1: "textLines fixed_pitch (js ''abcdefghij'') 35 (js ''16px serif'') 3
     = Some [js ''abc'', js ''def'', js ''ghi'']" by code_simp
  have 2: "textLines fixed_pitch (js ''ab'') 5 (js ''16px serif'') 3 = Some [js ''a'', js ''b'']"
    by code_simp
  note split_step = t[THEN conjunct2, THEN conjunct2, THEN conjunct2, THEN conjunct2,
      THEN conjunct2, THEN conjunct1]
  note trim = t[THEN conjunct2, THEN conjunct2, THEN conjunct2, THEN conjunct2,
      THEN conjunct2, THEN conjunct2, THEN conjunct1]
  from split_step ne have 3: "\<exists>b. bsearch_loop (fixed_pitch (js ''16px serif'')) 35 (js ''abcdefghij'') 1 10 1 = Some b \<and>
        1 \<le> b \<and> length (slice_from (js ''abcdefghij'') b) < 10"
    by (simp add: len maxChunkLength_def)
  from trim have 4: "\<exists>t. trim_loop (fixed_pitch (js ''16px serif'')) 35 (js ''abcdefghij'') = Some t \<and>
        3 \<le> length t"
    by (auto simp: len)
  from 1 2 3 4 show ?thesis by blast
qed

end
